theory Spec2Isabelle
  imports Main "HOL-Library.Word" "HOL-Library.Signed_Division"
begin

section \<open>Data model\<close>

text \<open>
  The detector works on Go's \<^verbatim>\<open>image.Point\<close> and \<^verbatim>\<open>image.Rectangle\<close>. Go's 64-bit
  \<^verbatim>\<open>int\<close> is modelled as \<^typ>\<open>int\<close>: every coordinate the flood fill touches is an index
  of the 10000 by 10000 grid, and the coordinate sums of the centroid scan of an image
  that fits in memory stay far below \<open>2^63\<close>. The brightness, a \<^verbatim>\<open>uint16\<close> that does
  wrap around, is a \<^typ>\<open>16 word\<close>. The rectangle's corners are called \<open>Min_pt\<close> and
  \<open>Max_pt\<close>, since \<open>Min\<close> and \<open>Max\<close> are taken by the library.
\<close>

record Point =
  X :: int
  Y :: int

record Rectangle =
  Min_pt :: Point
  Max_pt :: Point

text \<open>The four values returned by \<^verbatim>\<open>color.Color.RGBA()\<close>, each a \<^verbatim>\<open>uint32\<close>.\<close>

record Color =
  chanR :: "32 word"
  chanG :: "32 word"
  chanB :: "32 word"
  chanA :: "32 word"

text \<open>
  \<^verbatim>\<open>image.Image\<close> is an interface: a bounds rectangle and a pixel read \<^verbatim>\<open>At(x, y)\<close> that
  answers at every coordinate.
\<close>

record Image =
  ImgBounds :: Rectangle
  At :: "int \<Rightarrow> int \<Rightarrow> Color"

record LunarLimb =
  LuminalCenter :: Point
  Brightness :: "16 word"
  Bounds :: Rectangle

datatype error = IndexOutOfRange | LimbNotFound

definition ZP :: Point where
  "ZP = \<lparr>X = 0, Y = 0\<rparr>"

definition ZR :: Rectangle where
  "ZR = \<lparr>Min_pt = ZP, Max_pt = ZP\<rparr>"

text \<open>The zero value \<^verbatim>\<open>LunarLimb{}\<close>.\<close>

definition emptyLimb :: LunarLimb where
  "emptyLimb = \<lparr>LuminalCenter = ZP, Brightness = 0, Bounds = ZR\<rparr>"

section \<open>Geometry\<close>

definition Dx :: "Rectangle \<Rightarrow> int" where
  "Dx r = X (Max_pt r) - X (Min_pt r)"

definition Dy :: "Rectangle \<Rightarrow> int" where
  "Dy r = Y (Max_pt r) - Y (Min_pt r)"

text \<open>
  \<^verbatim>\<open>GrowRectangle\<close>: the x axis is updated first, then the y axis, each with the source's
  \<^verbatim>\<open>if ... else if\<close>.
\<close>

definition GrowRectangle :: "Rectangle \<Rightarrow> Point \<Rightarrow> Rectangle" where
  "GrowRectangle r p =
     (let r1 = (if X p < X (Min_pt r) then r\<lparr>Min_pt := (Min_pt r)\<lparr>X := X p\<rparr>\<rparr>
                else if X p > X (Max_pt r) then r\<lparr>Max_pt := (Max_pt r)\<lparr>X := X p\<rparr>\<rparr>
                else r)
      in (if Y p < Y (Min_pt r1) then r1\<lparr>Min_pt := (Min_pt r1)\<lparr>Y := Y p\<rparr>\<rparr>
          else if Y p > Y (Max_pt r1) then r1\<lparr>Max_pt := (Max_pt r1)\<lparr>Y := Y p\<rparr>\<rparr>
          else r1))"

text \<open>\<^verbatim>\<open>LunarLimb.Grow\<close>: a rectangle whose \<^verbatim>\<open>Max.X\<close> is 0 counts as not yet started.\<close>

definition Grow :: "LunarLimb \<Rightarrow> Point \<Rightarrow> LunarLimb" where
  "Grow ll p =
     (if X (Max_pt (Bounds ll)) = 0
      then ll\<lparr>Bounds := (Bounds ll)\<lparr>Min_pt := p, Max_pt := p\<rparr>\<rparr>
      else ll\<lparr>Bounds := GrowRectangle (Bounds ll) p\<rparr>)"

text \<open>\<^verbatim>\<open>Radius\<close>: Go's \<^verbatim>\<open>/\<close> on \<^verbatim>\<open>int\<close> truncates towards zero, which is \<open>sdiv\<close>.\<close>

definition Radius :: "LunarLimb \<Rightarrow> int" where
  "Radius ll = (Dx (Bounds ll) + Dy (Bounds ll)) sdiv 4"

definition Center :: "LunarLimb \<Rightarrow> Point" where
  "Center ll =
     \<lparr>X = (X (Min_pt (Bounds ll)) + X (Max_pt (Bounds ll))) sdiv 2,
      Y = (Y (Min_pt (Bounds ll)) + Y (Max_pt (Bounds ll))) sdiv 2\<rparr>"

section \<open>Luminance\<close>

text \<open>
  \<^verbatim>\<open>ColToGrayU16\<close> computes \<^verbatim>\<open>float64(r)*0.2989 + float64(g)*0.5870 + float64(b)*0.1140\<close>
  in \<^verbatim>\<open>float64\<close>, clamps at \<^verbatim>\<open>0xFFFF\<close> and truncates to \<^verbatim>\<open>uint16\<close>. A non-negative
  \<^verbatim>\<open>float64\<close> is modelled as a mantissa and a binary exponent, \<open>(m, e)\<close> for \<open>m * 2^e\<close>,
  and every product and every sum is rounded to 53 bits, to the nearest value and to the
  even one on a tie, as IEEE 754 does and as the Go compiler does on amd64, where it
  fuses no multiplication with an addition. The values that occur are 0 or lie between
  0.114 and \<open>2^34\<close>, far from underflow and overflow; signs, infinities and NaN do not
  occur and are not modelled. The detector itself only uses the gray value
  as a function from colours to \<^verbatim>\<open>uint16\<close>, so its model takes that function as the
  parameter \<open>toGray\<close>, and the general theorems hold for every such function.
\<close>

type_synonym float64 = "int \<times> int"

text \<open>The number of bits of a non-negative integer.\<close>

function bitlen :: "int \<Rightarrow> int" where
  "bitlen n = (if n \<le> 0 then 0 else 1 + bitlen (n div 2))"
  by pat_completeness auto
termination
  by (relation "measure nat") auto

text \<open>Rounding \<open>n * 2^e\<close> to a 53-bit mantissa: the low \<open>k\<close> bits go, to nearest, ties to even.\<close>

definition round64 :: "float64 \<Rightarrow> float64" where
  "round64 v =
     (case v of (n, e) \<Rightarrow>
        let k = bitlen n - 53 in
        if k \<le> 0 then (n, e)
        else let q = n div 2 ^ nat k; r = n mod 2 ^ nat k; h = 2 ^ nat (k - 1)
             in (if r > h \<or> (r = h \<and> odd q) then q + 1 else q, e + k))"

definition fmul :: "float64 \<Rightarrow> float64 \<Rightarrow> float64" where
  "fmul a b = (case a of (m1, e1) \<Rightarrow> case b of (m2, e2) \<Rightarrow> round64 (m1 * m2, e1 + e2))"

definition fadd :: "float64 \<Rightarrow> float64 \<Rightarrow> float64" where
  "fadd a b =
     (case a of (m1, e1) \<Rightarrow> case b of (m2, e2) \<Rightarrow>
        let e = min e1 e2 in round64 (m1 * 2 ^ nat (e1 - e) + m2 * 2 ^ nat (e2 - e), e))"

text \<open>The comparison \<^verbatim>\<open>gray > k\<close> with a whole number, and the truncation \<^verbatim>\<open>uint16(gray)\<close>.\<close>

definition fgt :: "float64 \<Rightarrow> int \<Rightarrow> bool" where
  "fgt a k = (case a of (m, e) \<Rightarrow> if 0 \<le> e then m * 2 ^ nat e > k else m > k * 2 ^ nat (- e))"

definition ftrunc :: "float64 \<Rightarrow> int" where
  "ftrunc a = (case a of (m, e) \<Rightarrow> if 0 \<le> e then m * 2 ^ nat e else m div 2 ^ nat (- e))"

text \<open>
  The \<^verbatim>\<open>float64\<close> values of the three literals: \<^verbatim>\<open>0x1.3212d77318fc5p-2\<close> for 0.2989,
  \<^verbatim>\<open>0x1.2c8b439581062p-1\<close> for 0.5870 and \<^verbatim>\<open>0x1.d2f1a9fbe76c9p-4\<close> for 0.1140. A
  \<^verbatim>\<open>uint32\<close> converts to \<^verbatim>\<open>float64\<close> exactly.
\<close>

definition lit2989 :: float64 where
  "lit2989 = (5384503714484165, - 54)"

definition lit5870 :: float64 where
  "lit5870 = (2643612981266481, - 52)"

definition lit1140 :: float64 where
  "lit1140 = (8214565720323785, - 56)"

definition ColToGrayU16 :: "Color \<Rightarrow> 16 word" where
  "ColToGrayU16 c =
     (let gray = fadd (fadd (fmul (uint (chanR c), 0) lit2989) (fmul (uint (chanG c), 0) lit5870))
                      (fmul (uint (chanB c), 0) lit1140)
      in if fgt gray 0xFFFF then 0xFFFF else word_of_int (ftrunc gray))"

section \<open>Centroid and brightness sample\<close>

text \<open>The test of the centroid scan, on the red channel only.\<close>

definition inBand :: "Image \<Rightarrow> int \<Rightarrow> int \<Rightarrow> bool" where
  "inBand img x y = (chanR (At img x y) > 0x0300 \<and> chanR (At img x y) < 0xfff0)"

text \<open>
  The inner loop over \<open>y\<close> and the outer loop over \<open>x\<close> of \<^verbatim>\<open>computeLuminalCenter\<close>; the
  accumulator is \<open>(sumX, sumY, n)\<close>. Both loops run while the index is \<open>\<le>\<close> the
  \<^verbatim>\<open>Max\<close> coordinate.
\<close>

function scanY :: "Image \<Rightarrow> int \<Rightarrow> int \<Rightarrow> int \<times> int \<times> int \<Rightarrow> int \<times> int \<times> int" where
  "scanY img x y acc =
     (if y \<le> Y (Max_pt (ImgBounds img))
      then scanY img x (y + 1)
             (case acc of (sumX, sumY, n) \<Rightarrow>
                if inBand img x y then (sumX + x, sumY + y, n + 1) else acc)
      else acc)"
  by pat_completeness auto
termination
  by (relation "measure (\<lambda>(img, x, y, acc). nat (Y (Max_pt (ImgBounds img)) + 1 - y))") auto

function scanX :: "Image \<Rightarrow> int \<Rightarrow> int \<times> int \<times> int \<Rightarrow> int \<times> int \<times> int" where
  "scanX img x acc =
     (if x \<le> X (Max_pt (ImgBounds img))
      then scanX img (x + 1) (scanY img x (Y (Min_pt (ImgBounds img))) acc)
      else acc)"
  by pat_completeness auto
termination
  by (relation "measure (\<lambda>(img, x, acc). nat (X (Max_pt (ImgBounds img)) + 1 - x))") auto

text \<open>The brightness loop \<^verbatim>\<open>for i:=-5; i<5; i++\<close>, adding into a \<^verbatim>\<open>uint16\<close>.\<close>

function sampleLoop :: "(Color \<Rightarrow> 16 word) \<Rightarrow> Image \<Rightarrow> Point \<Rightarrow> int \<Rightarrow> 16 word \<Rightarrow> 16 word" where
  "sampleLoop toGray img c i br =
     (if i < 5
      then sampleLoop toGray img c (i + 1) (br + toGray (At img (X c + i) (Y c)))
      else br)"
  by pat_completeness auto
termination
  by (relation "measure (\<lambda>(toGray, img, c, i, br). nat (5 - i))") auto

definition computeLuminalCenter :: "(Color \<Rightarrow> 16 word) \<Rightarrow> Image \<Rightarrow> LunarLimb \<Rightarrow> LunarLimb" where
  "computeLuminalCenter toGray img ll =
     (case scanX img (X (Min_pt (ImgBounds img))) (0, 0, 0) of (sumX, sumY, n) \<Rightarrow>
        if n = 0 then ll
        else let c = \<lparr>X = sumX sdiv n, Y = sumY sdiv n\<rparr>
             in ll\<lparr>LuminalCenter := c,
                   Brightness := sampleLoop toGray img c (- 5) (Brightness ll) div 10\<rparr>)"

section \<open>Flood fill\<close>

text \<open>
  \<^verbatim>\<open>seen\<close> is a \<^verbatim>\<open>[10000][10000]bool\<close>, here the set of the indices that hold \<^verbatim>\<open>true\<close>.
  Go panics on an index outside the array; the model returns \<open>IndexOutOfRange\<close>.
\<close>

definition inGrid :: "Point \<Rightarrow> bool" where
  "inGrid p = (0 \<le> X p \<and> X p < 10000 \<and> 0 \<le> Y p \<and> Y p < 10000)"

text \<open>
  One of the four neighbour tests: \<^verbatim>\<open>if cond && !seen[q.X][q.Y] { toVisit = append(toVisit, q) }\<close>.
  The \<^verbatim>\<open>&&\<close> reads the array only when \<open>cond\<close> holds.
\<close>

definition probe :: "Point set \<Rightarrow> bool \<Rightarrow> Point \<Rightarrow> Point list \<Rightarrow> error + Point list" where
  "probe seen cond q toVisit =
     (if cond
      then (if inGrid q then Inr (if q \<notin> seen then toVisit @ [q] else toVisit)
            else Inl IndexOutOfRange)
      else Inr toVisit)"

definition enqueue :: "Rectangle \<Rightarrow> Point set \<Rightarrow> Point \<Rightarrow> Point list \<Rightarrow> error + Point list" where
  "enqueue bounds seen p toVisit =
     (case probe seen (X p > X (Min_pt bounds)) \<lparr>X = X p - 1, Y = Y p\<rparr> toVisit of
        Inl e \<Rightarrow> Inl e
      | Inr q1 \<Rightarrow>
     (case probe seen (Y p > Y (Min_pt bounds)) \<lparr>X = X p, Y = Y p - 1\<rparr> q1 of
        Inl e \<Rightarrow> Inl e
      | Inr q2 \<Rightarrow>
     (case probe seen (X p < X (Max_pt bounds)) \<lparr>X = X p + 1, Y = Y p\<rparr> q2 of
        Inl e \<Rightarrow> Inl e
      | Inr q3 \<Rightarrow>
        probe seen (Y p < Y (Max_pt bounds)) \<lparr>X = X p, Y = Y p + 1\<rparr> q3)))"

lemma finite_grid: "finite {p. inGrid p}"
proof -
  have "{p. inGrid p} \<subseteq> (\<lambda>(x, y). \<lparr>X = x, Y = y\<rparr>) ` ({0..<10000} \<times> {0..<10000})"
  proof
    fix p assume "p \<in> {p. inGrid p}"
    then have "(X p, Y p) \<in> {0..<10000} \<times> {0..<10000}" by (simp add: inGrid_def)
    moreover have "p = (\<lambda>(x, y). \<lparr>X = x, Y = y\<rparr>) (X p, Y p)" by simp
    ultimately show "p \<in> (\<lambda>(x, y). \<lparr>X = x, Y = y\<rparr>) ` ({0..<10000} \<times> {0..<10000})"
      by (rule rev_image_eqI)
  qed
  then show ?thesis by (rule finite_subset) simp
qed

lemma unseen_decreases:
  assumes "inGrid p" and "p \<notin> seen"
  shows "card ({q. inGrid q} - insert p seen) < card ({q. inGrid q} - seen)"
proof -
  have "{q. inGrid q} - insert p seen \<subset> {q. inGrid q} - seen" using assms by auto
  then show ?thesis by (intro psubset_card_mono) (simp_all add: finite_grid)
qed

text \<open>
  The loop of \<^verbatim>\<open>FindLunarLimb\<close>. Every pass either drops an already seen point from the
  queue or marks a new index of the grid, so the loop ends.
\<close>

function floodfill ::
  "(Color \<Rightarrow> 16 word) \<Rightarrow> Image \<Rightarrow> 16 word \<Rightarrow> Point set \<Rightarrow> Point list \<Rightarrow> LunarLimb \<Rightarrow> error + LunarLimb"
where
  "floodfill toGray img thresh seen [] ll = Inr ll"
| "floodfill toGray img thresh seen (p # toVisit) ll =
     (if \<not> inGrid p then Inl IndexOutOfRange
      else if p \<in> seen then floodfill toGray img thresh seen toVisit ll
      else if toGray (At img (X p) (Y p)) > thresh
        then floodfill toGray img thresh (insert p seen) toVisit ll
      else (case enqueue (ImgBounds img) (insert p seen) p toVisit of
              Inl e \<Rightarrow> Inl e
            | Inr toVisit' \<Rightarrow> floodfill toGray img thresh (insert p seen) toVisit' (Grow ll p)))"
  by pat_completeness auto
termination floodfill
proof (relation "measures [\<lambda>(toGray, img, thresh, seen, toVisit, ll). card ({q. inGrid q} - seen),
                          \<lambda>(toGray, img, thresh, seen, toVisit, ll). length toVisit]", goal_cases)
  case 1
  show ?case by simp
next
  case 2
  show ?case by simp
next
  case (3 toGray img thresh seen p toVisit ll)
  then show ?case using unseen_decreases [of p seen] by simp
next
  case (4 toGray img thresh seen p toVisit ll x2)
  then show ?case using unseen_decreases [of p seen] by simp
qed

section \<open>FindLunarLimb\<close>

text \<open>
  \<^verbatim>\<open>thresh := uint16(0x1000); if ll.Brightness < 0x0015 { thresh = 0x0040 }\<close>
\<close>

definition fillThreshold :: "LunarLimb \<Rightarrow> 16 word" where
  "fillThreshold ll = (if Brightness ll < 0x0015 then 0x0040 else 0x1000)"

text \<open>
  The detector up to the end of the flood fill: a fresh \<^verbatim>\<open>LunarLimb{}\<close>, the centroid
  and brightness, the threshold, and the fill from the centroid with an all-false
  \<^verbatim>\<open>seen\<close>. The argument is \<^verbatim>\<open>si.OrigImage\<close>. The calls into the debug overlay
  (\<^verbatim>\<open>dci\<close>) only draw and are left out.
\<close>

definition fillStep :: "(Color \<Rightarrow> 16 word) \<Rightarrow> Image \<Rightarrow> error + LunarLimb" where
  "fillStep toGray img =
     (let ll = computeLuminalCenter toGray img emptyLimb
      in floodfill toGray img (fillThreshold ll) {} [LuminalCenter ll] ll)"

text \<open>
  \<^verbatim>\<open>if ll.Radius() == 0 { log.Fatal(...) }; return ll\<close>: \<^verbatim>\<open>log.Fatal\<close> ends the process,
  here the error \<open>LimbNotFound\<close>.
\<close>

definition FindLunarLimb :: "(Color \<Rightarrow> 16 word) \<Rightarrow> Image \<Rightarrow> error + LunarLimb" where
  "FindLunarLimb toGray img =
     (case fillStep toGray img of
        Inl e \<Rightarrow> Inl e
      | Inr ll \<Rightarrow> if Radius ll = 0 then Inl LimbNotFound else Inr ll)"

section \<open>Sets of pixels\<close>

text \<open>
  A point lies in a rectangle, both corners included. This is how the detector reads the
  image bounds: its loops and its neighbour tests run up to the \<^verbatim>\<open>Max\<close> corner.
\<close>

definition inRect :: "Rectangle \<Rightarrow> Point \<Rightarrow> bool" where
  "inRect r p = (X (Min_pt r) \<le> X p \<and> X p \<le> X (Max_pt r) \<and> Y (Min_pt r) \<le> Y p \<and> Y p \<le> Y (Max_pt r))"

text \<open>The pixels that the centroid scan counts: red channel strictly inside the band.\<close>

definition qualifying :: "Image \<Rightarrow> Point set" where
  "qualifying img =
     {p. inRect (ImgBounds img) p \<and> 0x0300 < chanR (At img (X p) (Y p)) \<and> chanR (At img (X p) (Y p)) < 0xfff0}"

text \<open>The image bounds, \<^verbatim>\<open>Max\<close> corner included, fit the \<^verbatim>\<open>seen\<close> grid.\<close>

definition inGridRect :: "Rectangle \<Rightarrow> bool" where
  "inGridRect r = (0 \<le> X (Min_pt r) \<and> X (Max_pt r) < 10000 \<and> 0 \<le> Y (Min_pt r) \<and> Y (Max_pt r) < 10000)"

text \<open>
  The neighbours of \<open>p\<close> whose bounds test in \<^verbatim>\<open>FindLunarLimb\<close> passes, that is, the points
  whose \<^verbatim>\<open>seen\<close> entry the loop body reads after accepting \<open>p\<close>.
\<close>

definition neighbours :: "Rectangle \<Rightarrow> Point \<Rightarrow> Point set" where
  "neighbours bounds p =
     (if X p > X (Min_pt bounds) then {\<lparr>X = X p - 1, Y = Y p\<rparr>} else {}) \<union>
     (if Y p > Y (Min_pt bounds) then {\<lparr>X = X p, Y = Y p - 1\<rparr>} else {}) \<union>
     (if X p < X (Max_pt bounds) then {\<lparr>X = X p + 1, Y = Y p\<rparr>} else {}) \<union>
     (if Y p < Y (Max_pt bounds) then {\<lparr>X = X p, Y = Y p + 1\<rparr>} else {})"

text \<open>
  The words of the specification for the result of the fill: a pixel is dark enough when
  its gray value does not exceed the threshold; two pixels are 4-connected when they
  differ by one step along one axis; the limb (\<open>limbPixels\<close>) is what can be reached
  from the seed through dark pixels of the image; the bounding rectangle of a set of points
  has the least and the greatest coordinate on each axis as its corners.
\<close>

definition dark :: "(Color \<Rightarrow> 16 word) \<Rightarrow> Image \<Rightarrow> 16 word \<Rightarrow> Point \<Rightarrow> bool" where
  "dark toGray img thresh p = (toGray (At img (X p) (Y p)) \<le> thresh)"

definition adjacent :: "Point \<Rightarrow> Point \<Rightarrow> bool" where
  "adjacent p q =
     (q = \<lparr>X = X p - 1, Y = Y p\<rparr> \<or> q = \<lparr>X = X p, Y = Y p - 1\<rparr> \<or>
      q = \<lparr>X = X p + 1, Y = Y p\<rparr> \<or> q = \<lparr>X = X p, Y = Y p + 1\<rparr>)"

text \<open>\<^verbatim>\<open>p.In(r)\<close>: the pixels of a Go image are the points of its bounds, \<^verbatim>\<open>Max\<close> excluded.\<close>

definition inImage :: "Rectangle \<Rightarrow> Point \<Rightarrow> bool" where
  "inImage r p = (X (Min_pt r) \<le> X p \<and> X p < X (Max_pt r) \<and> Y (Min_pt r) \<le> Y p \<and> Y p < Y (Max_pt r))"

inductive_set limbPixels :: "(Color \<Rightarrow> 16 word) \<Rightarrow> Image \<Rightarrow> 16 word \<Rightarrow> Point \<Rightarrow> Point set"
  for toGray :: "Color \<Rightarrow> 16 word" and img :: Image and thresh :: "16 word" and s :: Point
where
  seed: "dark toGray img thresh s \<Longrightarrow> s \<in> limbPixels toGray img thresh s"
| step: "p \<in> limbPixels toGray img thresh s \<Longrightarrow> adjacent p q \<Longrightarrow> inImage (ImgBounds img) q \<Longrightarrow>
         dark toGray img thresh q \<Longrightarrow> q \<in> limbPixels toGray img thresh s"

definition boundingBox :: "Point set \<Rightarrow> Rectangle" where
  "boundingBox S =
     \<lparr>Min_pt = \<lparr>X = Min (X ` S), Y = Min (Y ` S)\<rparr>,
      Max_pt = \<lparr>X = Max (X ` S), Y = Max (Y ` S)\<rparr>\<rparr>"

text \<open>
  The words of the specification for the brightness sample, ``a 10-pixel horizontal window
  centered at the centroid (5 pixels each side)'': the five pixels to the left and the five
  pixels to the right of the centroid, averaged.
\<close>

definition windowAverage :: "(Color \<Rightarrow> 16 word) \<Rightarrow> Image \<Rightarrow> Point \<Rightarrow> int" where
  "windowAverage toGray img c =
     sum_list (map (\<lambda>i. uint (toGray (At img (X c + i) (Y c)))) [- 5, - 4, - 3, - 2, - 1, 1, 2, 3, 4, 5]) div 10"

text \<open>
  The state of the fill loop, for its correctness proof. \<open>reached\<close> is what the loop can
  accept: its neighbour tests let it step to every point of the bounds rectangle with the
  \<^verbatim>\<open>Max\<close> corner included, so also to the points of the \<^verbatim>\<open>Max\<close> row and column, which are
  no pixels of the image. The accepted points are the seen ones that are dark, and
  \<open>fill_inv\<close> is the loop invariant.
\<close>

inductive_set reached :: "(Color \<Rightarrow> 16 word) \<Rightarrow> Image \<Rightarrow> 16 word \<Rightarrow> Point \<Rightarrow> Point set"
  for toGray :: "Color \<Rightarrow> 16 word" and img :: Image and thresh :: "16 word" and s :: Point
where
  seed: "dark toGray img thresh s \<Longrightarrow> s \<in> reached toGray img thresh s"
| step: "p \<in> reached toGray img thresh s \<Longrightarrow> adjacent p q \<Longrightarrow> inRect (ImgBounds img) q \<Longrightarrow>
         dark toGray img thresh q \<Longrightarrow> q \<in> reached toGray img thresh s"

definition accepted :: "(Color \<Rightarrow> 16 word) \<Rightarrow> Image \<Rightarrow> 16 word \<Rightarrow> Point set \<Rightarrow> Point set" where
  "accepted toGray img thresh seen = {p \<in> seen. dark toGray img thresh p}"

definition fill_inv ::
  "(Color \<Rightarrow> 16 word) \<Rightarrow> Image \<Rightarrow> 16 word \<Rightarrow> Point \<Rightarrow> Point set \<Rightarrow> Point list \<Rightarrow> LunarLimb \<Rightarrow> bool"
where
  "fill_inv toGray img thresh s seen toVisit ll =
     ((\<forall>p\<in>set toVisit. inRect (ImgBounds img) p) \<and>
      (\<forall>p\<in>seen. inRect (ImgBounds img) p) \<and>
      (\<forall>p\<in>set toVisit \<union> seen. dark toGray img thresh p \<longrightarrow> p \<in> reached toGray img thresh s) \<and>
      (\<forall>p\<in>accepted toGray img thresh seen. \<forall>q. adjacent p q \<and> inRect (ImgBounds img) q \<longrightarrow>
           q \<in> seen \<or> q \<in> set toVisit) \<and>
      (s \<in> seen \<or> s \<in> set toVisit) \<and>
      (if accepted toGray img thresh seen = {}
       then set toVisit \<subseteq> {s} \<and> Bounds ll = ZR
       else s \<in> accepted toGray img thresh seen \<and>
            Bounds ll = boundingBox (accepted toGray img thresh seen)))"

section \<open>Concrete images\<close>

text \<open>
  Colours and small images on which the detector is evaluated. \<open>picture\<close> is an image
  of a standard Go type: inside its bounds (\<^verbatim>\<open>Max\<close> excluded) it holds the given pixels,
  and \<^verbatim>\<open>At\<close> answers the zero colour everywhere else. The gray values of the colours
  used are 0 (black and transparent), 306.0736 (\<open>dimRed\<close>), 32764.7232 (\<open>midGray\<close>) and
  65528.4465 (white) before truncation, none of them within rounding of a whole number.
\<close>

definition black :: Color where "black = \<lparr>chanR = 0, chanG = 0, chanB = 0, chanA = 0xffff\<rparr>"

definition white :: Color where "white = \<lparr>chanR = 0xffff, chanG = 0xffff, chanB = 0xffff, chanA = 0xffff\<rparr>"

definition dimRed :: Color where "dimRed = \<lparr>chanR = 0x0400, chanG = 0, chanB = 0, chanA = 0xffff\<rparr>"

definition midGray :: Color where "midGray = \<lparr>chanR = 0x8000, chanG = 0x8000, chanB = 0x8000, chanA = 0xffff\<rparr>"

definition transparent :: Color where "transparent = \<lparr>chanR = 0, chanG = 0, chanB = 0, chanA = 0\<rparr>"

definition rect :: "int \<Rightarrow> int \<Rightarrow> int \<Rightarrow> int \<Rightarrow> Rectangle" where
  "rect x0 y0 x1 y1 = \<lparr>Min_pt = \<lparr>X = x0, Y = y0\<rparr>, Max_pt = \<lparr>X = x1, Y = y1\<rparr>\<rparr>"

definition picture :: "Rectangle \<Rightarrow> (int \<Rightarrow> int \<Rightarrow> Color) \<Rightarrow> Image" where
  "picture r f =
     \<lparr>ImgBounds = r,
      At = (\<lambda>x y. if X (Min_pt r) \<le> x \<and> x < X (Max_pt r) \<and> Y (Min_pt r) \<le> y \<and> y < Y (Max_pt r)
                   then f x y else transparent)\<rparr>"

text \<open>A black L on white, starting in column 0; no pixel is in the band, all are black or white.\<close>

definition imgL :: Image where
  "imgL = picture (rect 0 0 8 4) (\<lambda>x y. if (x = 0 \<and> y \<le> 2) \<or> (y = 2 \<and> x \<le> 6) then black else white)"

text \<open>One dim red pixel at (5, 1) and a white pixel five to its right, on black.\<close>

definition imgW :: Image where
  "imgW = picture (rect 0 0 12 2) (\<lambda>x y. if x = 5 \<and> y = 1 then dimRed else if x = 10 \<and> y = 1 then white else black)"

text \<open>Twelve mid-gray pixels in a row: the sum of ten of them does not fit 16 bits.\<close>

definition imgGray :: Image where
  "imgGray = picture (rect 0 0 12 1) (\<lambda>x y. midGray)"

text \<open>Two images whose bounds start at a negative coordinate, one black and one white.\<close>

definition imgNeg :: Image where
  "imgNeg = picture (rect (- 1) 0 1 1) (\<lambda>x y. black)"

definition imgWhite :: Image where
  "imgWhite = picture (rect (- 1) (- 1) 1 1) (\<lambda>x y. white)"

text \<open>
  Two dim red pixels on white. In \<open>imgLeak\<close> the second one lies in the last column of the
  image, in \<open>imgSpot\<close> white pixels surround both.
\<close>

definition imgLeak :: Image where
  "imgLeak = picture (rect 0 0 6 3) (\<lambda>x y. if (x = 4 \<or> x = 5) \<and> y = 1 then dimRed else white)"

definition imgSpot :: Image where
  "imgSpot = picture (rect 0 0 7 4) (\<lambda>x y. if (x = 3 \<or> x = 4) \<and> y = 1 then dimRed else white)"

text \<open>A single dim red pixel in column 9999, the last column of the grid.\<close>

definition imgEdge :: Image where
  "imgEdge = picture (rect 9999 0 10000 1) (\<lambda>x y. dimRed)"


declare scanY.simps [simp del] scanX.simps [simp del] sampleLoop.simps [simp del]
  floodfill.simps(2) [simp del] bitlen.simps [simp del]

text \<open>
  The gray values of the colours, each computed once. The last one is a colour whose exact
  gray value is the whole number 4097; the rounded sum falls just below it.
\<close>

lemmas float_eval =
  ColToGrayU16_def lit2989_def lit5870_def lit1140_def fadd_def fmul_def round64_def fgt_def
  ftrunc_def bitlen.simps Let_def

lemma gray_black: "ColToGrayU16 black = 0"
  by (simp add: black_def float_eval)

lemma gray_transparent: "ColToGrayU16 transparent = 0"
  by (simp add: transparent_def float_eval)

lemma gray_dimRed: "ColToGrayU16 dimRed = 306"
  by (simp add: dimRed_def float_eval)

lemma gray_midGray: "ColToGrayU16 midGray = 32764"
  by (simp add: midGray_def float_eval)

lemma gray_white: "ColToGrayU16 white = 65528"
  by (simp add: white_def float_eval)

lemma gray_rounding: "ColToGrayU16 \<lparr>chanR = 70, chanG = 5573, chanB = 7059, chanA = 0xffff\<rparr> = 4096"
  by (simp add: float_eval)

lemma red_of_colours:
  "chanR black = 0" "chanR transparent = 0" "chanR dimRed = 0x0400" "chanR midGray = 0x8000"
  "chanR white = 0xffff"
  by (simp_all add: black_def transparent_def dimRed_def midGray_def white_def)

text \<open>The equations that evaluate the detector on a concrete image.\<close>

lemmas detector_eval =
  rect_def picture_def red_of_colours gray_black gray_transparent gray_dimRed gray_midGray gray_white
  ZP_def ZR_def emptyLimb_def inGrid_def enqueue_def probe_def Grow_def GrowRectangle_def
  computeLuminalCenter_def fillThreshold_def fillStep_def FindLunarLimb_def
  Radius_def Dx_def Dy_def inBand_def scanX.simps scanY.simps sampleLoop.simps floodfill.simps
  signed_divide_int_def Let_def

section \<open>The centroid scan\<close>

text \<open>Each loop adds up what its body adds, over the range it runs through.\<close>

lemma scanY_sum:
  "scanY img x y (sx, sy, n) =
     (sx + (\<Sum>j\<in>{y..Y (Max_pt (ImgBounds img))}. if inBand img x j then x else 0),
      sy + (\<Sum>j\<in>{y..Y (Max_pt (ImgBounds img))}. if inBand img x j then j else 0),
      n + (\<Sum>j\<in>{y..Y (Max_pt (ImgBounds img))}. if inBand img x j then 1 else 0))"
proof (induction img x y "(sx, sy, n)" arbitrary: sx sy n rule: scanY.induct)
  case (1 img x y)
  let ?M = "Y (Max_pt (ImgBounds img))"
  show ?case
  proof (cases "y \<le> ?M")
    case True
    have split: "{y..?M} = insert y {y + 1..?M}" using True by auto
    have fresh: "y \<notin> {y + 1..?M}" by simp
    show ?thesis
    proof (cases "inBand img x y")
      case band: True
      have "scanY img x y (sx, sy, n) = scanY img x (y + 1) (sx + x, sy + y, n + 1)"
        using True band by (subst scanY.simps) simp
      also have "\<dots> = (sx + x + (\<Sum>j\<in>{y + 1..?M}. if inBand img x j then x else 0),
                        sy + y + (\<Sum>j\<in>{y + 1..?M}. if inBand img x j then j else 0),
                        n + 1 + (\<Sum>j\<in>{y + 1..?M}. if inBand img x j then 1 else 0))"
        using "1.hyps" [OF True, of "sx + x" "sy + y" "n + 1"] band by simp
      finally show ?thesis using band by (simp add: split)
    next
      case noband: False
      have "scanY img x y (sx, sy, n) = scanY img x (y + 1) (sx, sy, n)"
        using True noband by (subst scanY.simps) simp
      also have "\<dots> = (sx + (\<Sum>j\<in>{y + 1..?M}. if inBand img x j then x else 0),
                        sy + (\<Sum>j\<in>{y + 1..?M}. if inBand img x j then j else 0),
                        n + (\<Sum>j\<in>{y + 1..?M}. if inBand img x j then 1 else 0))"
        using "1.hyps" [OF True, of sx sy n] noband by simp
      finally show ?thesis using noband by (simp add: split)
    qed
  next
    case False
    then show ?thesis by (subst scanY.simps) simp
  qed
qed

lemma scanX_sum:
  "scanX img x (sx, sy, n) =
     (sx + (\<Sum>i\<in>{x..X (Max_pt (ImgBounds img))}.
              \<Sum>j\<in>{Y (Min_pt (ImgBounds img))..Y (Max_pt (ImgBounds img))}. if inBand img i j then i else 0),
      sy + (\<Sum>i\<in>{x..X (Max_pt (ImgBounds img))}.
              \<Sum>j\<in>{Y (Min_pt (ImgBounds img))..Y (Max_pt (ImgBounds img))}. if inBand img i j then j else 0),
      n + (\<Sum>i\<in>{x..X (Max_pt (ImgBounds img))}.
              \<Sum>j\<in>{Y (Min_pt (ImgBounds img))..Y (Max_pt (ImgBounds img))}. if inBand img i j then 1 else 0))"
proof (induction img x "(sx, sy, n)" arbitrary: sx sy n rule: scanX.induct)
  case (1 img x)
  let ?M = "X (Max_pt (ImgBounds img))"
  show ?case
  proof (cases "x \<le> ?M")
    case True
    have split: "{x..?M} = insert x {x + 1..?M}" using True by auto
    obtain sx' sy' n' where col: "scanY img x (Y (Min_pt (ImgBounds img))) (sx, sy, n) = (sx', sy', n')"
      by (cases "scanY img x (Y (Min_pt (ImgBounds img))) (sx, sy, n)") auto
    have col': "sx' = sx + (\<Sum>j\<in>{Y (Min_pt (ImgBounds img))..Y (Max_pt (ImgBounds img))}. if inBand img x j then x else 0)"
       "sy' = sy + (\<Sum>j\<in>{Y (Min_pt (ImgBounds img))..Y (Max_pt (ImgBounds img))}. if inBand img x j then j else 0)"
       "n' = n + (\<Sum>j\<in>{Y (Min_pt (ImgBounds img))..Y (Max_pt (ImgBounds img))}. if inBand img x j then 1 else 0)"
      using col by (simp_all add: scanY_sum)
    have "scanX img x (sx, sy, n) = scanX img (x + 1) (sx', sy', n')"
      using True col by (subst scanX.simps) simp
    also note "1.hyps" [OF True col]
    finally show ?thesis
      by (simp add: col' split add.assoc)
  next
    case False
    then show ?thesis by (subst scanX.simps) simp
  qed
qed

lemma rect_sum:
  fixes f :: "int \<Rightarrow> int \<Rightarrow> int"
  shows "(\<Sum>i\<in>{X (Min_pt r)..X (Max_pt r)}. \<Sum>j\<in>{Y (Min_pt r)..Y (Max_pt r)}. if P i j then f i j else 0)
         = (\<Sum>p\<in>{p. inRect r p \<and> P (X p) (Y p)}. f (X p) (Y p))"
proof -
  let ?B = "{X (Min_pt r)..X (Max_pt r)} \<times> {Y (Min_pt r)..Y (Max_pt r)}"
  let ?mk = "\<lambda>(i, j). \<lparr>X = i, Y = j\<rparr>"
  have inj: "inj_on ?mk {c \<in> ?B. P (fst c) (snd c)}"
    by (auto simp: inj_on_def)
  have img: "?mk ` {c \<in> ?B. P (fst c) (snd c)} = {p. inRect r p \<and> P (X p) (Y p)}"
  proof (intro set_eqI iffI)
    fix p assume "p \<in> ?mk ` {c \<in> ?B. P (fst c) (snd c)}"
    then show "p \<in> {p. inRect r p \<and> P (X p) (Y p)}" by (auto simp: inRect_def)
  next
    fix p assume "p \<in> {p. inRect r p \<and> P (X p) (Y p)}"
    then have "(X p, Y p) \<in> {c \<in> ?B. P (fst c) (snd c)}" by (simp add: inRect_def)
    moreover have "p = ?mk (X p, Y p)" by simp
    ultimately show "p \<in> ?mk ` {c \<in> ?B. P (fst c) (snd c)}" by (rule rev_image_eqI)
  qed
  have "(\<Sum>i\<in>{X (Min_pt r)..X (Max_pt r)}. \<Sum>j\<in>{Y (Min_pt r)..Y (Max_pt r)}. if P i j then f i j else 0)
        = (\<Sum>c\<in>?B. if P (fst c) (snd c) then f (fst c) (snd c) else 0)"
    by (simp add: sum.cartesian_product case_prod_unfold)
  also have "\<dots> = (\<Sum>c\<in>{c \<in> ?B. P (fst c) (snd c)}. f (fst c) (snd c))"
    by (simp add: sum.inter_filter)
  also have "\<dots> = (\<Sum>p\<in>?mk ` {c \<in> ?B. P (fst c) (snd c)}. f (X p) (Y p))"
    by (subst sum.reindex [OF inj]) (simp add: case_prod_unfold comp_def)
  finally show ?thesis by (simp only: img)
qed

lemma qualifying_alt: "qualifying img = {p. inRect (ImgBounds img) p \<and> inBand img (X p) (Y p)}"
  by (simp add: qualifying_def inBand_def)

lemma finite_inRect: "finite {p. inRect r p}"
proof -
  have "{p. inRect r p} \<subseteq> (\<lambda>(x, y). \<lparr>X = x, Y = y\<rparr>) ` ({X (Min_pt r)..X (Max_pt r)} \<times> {Y (Min_pt r)..Y (Max_pt r)})"
  proof
    fix p assume "p \<in> {p. inRect r p}"
    then have "(X p, Y p) \<in> {X (Min_pt r)..X (Max_pt r)} \<times> {Y (Min_pt r)..Y (Max_pt r)}"
      by (simp add: inRect_def)
    moreover have "p = (\<lambda>(x, y). \<lparr>X = x, Y = y\<rparr>) (X p, Y p)" by simp
    ultimately show "p \<in> (\<lambda>(x, y). \<lparr>X = x, Y = y\<rparr>) ` ({X (Min_pt r)..X (Max_pt r)} \<times> {Y (Min_pt r)..Y (Max_pt r)})"
      by (rule rev_image_eqI)
  qed
  then show ?thesis by (rule finite_subset) simp
qed

lemma finite_qualifying: "finite (qualifying img)"
  by (rule finite_subset [OF _ finite_inRect [of "ImgBounds img"]]) (auto simp: qualifying_def)

lemma scan_total:
  "scanX img (X (Min_pt (ImgBounds img))) (0, 0, 0) =
     (\<Sum>p\<in>qualifying img. X p, \<Sum>p\<in>qualifying img. Y p, int (card (qualifying img)))"
proof -
  have n: "(\<Sum>p\<in>qualifying img. (1::int)) = int (card (qualifying img))" by simp
  show ?thesis
    unfolding scanX_sum
    by (simp only: rect_sum [where P = "inBand img"] qualifying_alt [symmetric] n add_0)
qed

lemma sampleLoop_sum:
  "sampleLoop toGray img c i br = br + (\<Sum>j\<in>{i..4}. toGray (At img (X c + j) (Y c)))"
proof (induction toGray img c i br rule: sampleLoop.induct)
  case (1 toGray img c i br)
  show ?case
  proof (cases "i < 5")
    case True
    have split: "{i..4} = insert i {i + 1..4}" using True by auto
    have "sampleLoop toGray img c i br =
          sampleLoop toGray img c (i + 1) (br + toGray (At img (X c + i) (Y c)))"
      using True by (subst sampleLoop.simps) simp
    also note "1.IH" [OF True]
    finally show ?thesis by (simp add: split add.assoc)
  next
    case False
    then show ?thesis by (subst sampleLoop.simps) simp
  qed
qed

lemma card_qualifying_0: "int (card (qualifying img)) = 0 \<longleftrightarrow> qualifying img = {}"
  by (simp add: finite_qualifying)

lemma computeLuminalCenter_unfold:
  "computeLuminalCenter toGray img ll =
     (if qualifying img = {} then ll
      else let c = \<lparr>X = (\<Sum>p\<in>qualifying img. X p) sdiv int (card (qualifying img)),
                     Y = (\<Sum>p\<in>qualifying img. Y p) sdiv int (card (qualifying img))\<rparr>
           in ll\<lparr>LuminalCenter := c,
                 Brightness := (Brightness ll + (\<Sum>j\<in>{- 5..4}. toGray (At img (X c + j) (Y c)))) div 10\<rparr>)"
  by (simp add: computeLuminalCenter_def scan_total card_qualifying_0 sampleLoop_sum Let_def
           del: of_nat_eq_0_iff)


text \<open>
  On \<open>imgW\<close> the one qualifying pixel is the centroid; on the white image nothing qualifies
  and the centroid is the origin.
\<close>

lemma imgW_center: "computeLuminalCenter ColToGrayU16 imgW emptyLimb =
    \<lparr>LuminalCenter = \<lparr>X = 5, Y = 1\<rparr>, Brightness = 30, Bounds = rect 0 0 0 0\<rparr>"
  by (simp add: imgW_def detector_eval)


section \<open>The brightness sample\<close>

lemma uint_word_sum:
  fixes f :: "int \<Rightarrow> 16 word"
  assumes "finite A" and "(\<Sum>j\<in>A. uint (f j)) \<le> 0xFFFF"
  shows "uint (\<Sum>j\<in>A. f j) = (\<Sum>j\<in>A. uint (f j))"
  using assms
proof (induction A rule: finite_induct)
  case empty
  show ?case by simp
next
  case (insert a A)
  have nonneg: "0 \<le> (\<Sum>j\<in>A. uint (f j))" by (simp add: sum_nonneg)
  have a0: "0 \<le> uint (f a)" by simp
  have total: "uint (f a) + (\<Sum>j\<in>A. uint (f j)) \<le> 0xFFFF"
    using insert.prems insert.hyps by simp
  have small: "(\<Sum>j\<in>A. uint (f j)) \<le> 0xFFFF" using total a0 by linarith
  have IH: "uint (\<Sum>j\<in>A. f j) = (\<Sum>j\<in>A. uint (f j))" using insert.IH small by simp
  have "uint (f a + (\<Sum>j\<in>A. f j)) = (uint (f a) + uint (\<Sum>j\<in>A. f j)) mod 2 ^ 16"
    by (simp add: uint_word_ariths)
  also have "\<dots> = uint (f a) + (\<Sum>j\<in>A. uint (f j))"
    using total nonneg a0 by (simp add: IH)
  finally show ?case using insert.hyps by simp
qed

lemma window_set: "{- 5..4::int} = {- 5, - 4, - 3, - 2, - 1, 0, 1, 2, 3, 4}"
proof (intro set_eqI iffI)
  fix x :: int assume "x \<in> {- 5..4}"
  then have "- 5 \<le> x" and "x \<le> 4" by simp_all
  then have "x = - 5 \<or> x = - 4 \<or> x = - 3 \<or> x = - 2 \<or> x = - 1 \<or> x = 0 \<or> x = 1 \<or> x = 2 \<or> x = 3 \<or> x = 4"
    by arith
  then show "x \<in> {- 5, - 4, - 3, - 2, - 1, 0, 1, 2, 3, 4}" by simp
next
  fix x :: int assume "x \<in> {- 5, - 4, - 3, - 2, - 1, 0, 1, 2, 3, 4}"
  then show "x \<in> {- 5..4}" by auto
qed

text \<open>
  Claim C4, amended. When some pixel qualifies, the brightness is the sum of the gray values
  of the ten pixels at the horizontal offsets \<open>-5, \<dots>, 4\<close> from the centroid (five to its
  left, its own pixel and four to its right), divided by 10 with integer division,
  provided that this sum fits the 16-bit accumulator.
\<close>

theorem brightness_sample:
  assumes "qualifying img \<noteq> {}"
    and "(\<Sum>i\<in>{- 5..4}. uint (toGray (At img (X (LuminalCenter (computeLuminalCenter toGray img emptyLimb)) + i)
                                              (Y (LuminalCenter (computeLuminalCenter toGray img emptyLimb)))))) \<le> 0xFFFF"
  shows "uint (Brightness (computeLuminalCenter toGray img emptyLimb)) =
         (\<Sum>i\<in>{- 5..4}. uint (toGray (At img (X (LuminalCenter (computeLuminalCenter toGray img emptyLimb)) + i)
                                              (Y (LuminalCenter (computeLuminalCenter toGray img emptyLimb)))))) div 10"
proof -
  let ?c = "LuminalCenter (computeLuminalCenter toGray img emptyLimb)"
  have br: "Brightness (computeLuminalCenter toGray img emptyLimb) =
            (\<Sum>j\<in>{- 5..4}. toGray (At img (X ?c + j) (Y ?c))) div 10"
    using assms(1) by (simp add: computeLuminalCenter_unfold emptyLimb_def Let_def)
  have "uint (\<Sum>j\<in>{- 5..4}. toGray (At img (X ?c + j) (Y ?c))) =
        (\<Sum>j\<in>{- 5..4}. uint (toGray (At img (X ?c + j) (Y ?c))))"
    by (rule uint_word_sum) (use assms(2) in simp_all)
  then show ?thesis by (simp add: br uint_div)
qed

text \<open>On \<open>imgW\<close> the window holds the dim red pixel only: the sum is 306, the sample 30.\<close>

theorem brightness_sample_witness:
  "qualifying imgW \<noteq> {} \<and>
   (\<Sum>i\<in>{- 5..4}. uint (ColToGrayU16 (At imgW (X (LuminalCenter (computeLuminalCenter ColToGrayU16 imgW emptyLimb)) + i)
                                              (Y (LuminalCenter (computeLuminalCenter ColToGrayU16 imgW emptyLimb)))))) = 306 \<and>
   uint (Brightness (computeLuminalCenter ColToGrayU16 imgW emptyLimb)) = 30"
proof -
  have "\<lparr>X = 5, Y = 1\<rparr> \<in> qualifying imgW"
    by (simp add: qualifying_def inRect_def imgW_def picture_def rect_def dimRed_def)
  then have h1: "qualifying imgW \<noteq> {}" by blast
  have s: "(\<Sum>i\<in>{- 5..4}. uint (ColToGrayU16 (At imgW (X (LuminalCenter (computeLuminalCenter ColToGrayU16 imgW emptyLimb)) + i)
                                              (Y (LuminalCenter (computeLuminalCenter ColToGrayU16 imgW emptyLimb)))))) = 306"
    by (simp add: imgW_center window_set) (simp add: imgW_def detector_eval)
  then have h2: "(\<Sum>i\<in>{- 5..4}. uint (ColToGrayU16 (At imgW (X (LuminalCenter (computeLuminalCenter ColToGrayU16 imgW emptyLimb)) + i)
                                              (Y (LuminalCenter (computeLuminalCenter ColToGrayU16 imgW emptyLimb)))))) \<le> 0xFFFF"
    by simp
  show ?thesis using brightness_sample [OF h1 h2] h1 s by simp
qed

text \<open>
  The claim as stated fails twice. On \<open>imgW\<close> the pixel five to the right of the centroid
  is white and the sample is 30, not the 6552 that five pixels on each side give: the
  window ends four pixels to the right. On \<open>imgGray\<close> every pixel has gray value 32764, so
  every average is 32764, but the 16-bit sum wraps around and the sample is 6549.
\<close>

theorem brightness_sample_counterexample:
  "uint (Brightness (computeLuminalCenter ColToGrayU16 imgW emptyLimb)) = 30 \<and>
   windowAverage ColToGrayU16 imgW (LuminalCenter (computeLuminalCenter ColToGrayU16 imgW emptyLimb)) = 6552 \<and>
   LuminalCenter (computeLuminalCenter ColToGrayU16 imgGray emptyLimb) = \<lparr>X = 5, Y = 0\<rparr> \<and>
   uint (Brightness (computeLuminalCenter ColToGrayU16 imgGray emptyLimb)) = 6549 \<and>
   (\<Sum>i\<in>{- 5..4}. uint (ColToGrayU16 (At imgGray (5 + i) 0))) div 10 = 32764 \<and>
   windowAverage ColToGrayU16 imgGray \<lparr>X = 5, Y = 0\<rparr> = 32764"
proof (intro conjI)
  show "uint (Brightness (computeLuminalCenter ColToGrayU16 imgW emptyLimb)) = 30"
    by (simp add: imgW_center)
  show "windowAverage ColToGrayU16 imgW (LuminalCenter (computeLuminalCenter ColToGrayU16 imgW emptyLimb)) = 6552"
    by (simp add: imgW_center windowAverage_def) (simp add: imgW_def detector_eval)
  show "LuminalCenter (computeLuminalCenter ColToGrayU16 imgGray emptyLimb) = \<lparr>X = 5, Y = 0\<rparr>"
    by (simp add: imgGray_def detector_eval)
  show "uint (Brightness (computeLuminalCenter ColToGrayU16 imgGray emptyLimb)) = 6549"
    by (simp add: imgGray_def detector_eval)
  show "(\<Sum>i\<in>{- 5..4}. uint (ColToGrayU16 (At imgGray (5 + i) 0))) div 10 = 32764"
    by (simp add: window_set) (simp add: imgGray_def detector_eval)
  show "windowAverage ColToGrayU16 imgGray \<lparr>X = 5, Y = 0\<rparr> = 32764"
    by (simp add: windowAverage_def) (simp add: imgGray_def detector_eval)
qed

section \<open>The threshold\<close>


text \<open>\<open>imgW\<close> has brightness \<open>0x1e\<close> and is filled at \<open>0x1000\<close>; \<open>imgL\<close> has brightness 0 and is filled at \<open>0x0040\<close>.\<close>

lemma imgL_center: "computeLuminalCenter ColToGrayU16 imgL emptyLimb = emptyLimb"
  by (simp add: imgL_def detector_eval)

lemma imgL_seed: "LuminalCenter (computeLuminalCenter ColToGrayU16 imgL emptyLimb) = ZP"
  by (simp only: imgL_center) (simp add: emptyLimb_def)

lemma imgL_thresh: "fillThreshold (computeLuminalCenter ColToGrayU16 imgL emptyLimb) = 0x40"
  by (simp only: imgL_center) (simp add: emptyLimb_def fillThreshold_def)

lemma imgL_fill: "fillStep ColToGrayU16 imgL =
    Inr \<lparr>LuminalCenter = \<lparr>X = 0, Y = 0\<rparr>, Brightness = 0, Bounds = rect 1 2 6 2\<rparr>"
  by (simp add: imgL_def detector_eval)

lemma imgW_fill: "fillStep ColToGrayU16 imgW =
    Inr \<lparr>LuminalCenter = \<lparr>X = 5, Y = 1\<rparr>, Brightness = 30, Bounds = rect 0 0 12 2\<rparr>"
  by (simp add: imgW_def detector_eval)


section \<open>The neighbour tests\<close>

lemma probe_Inr:
  "probe seen c q Q = Inr Q' \<longleftrightarrow> (c \<longrightarrow> inGrid q) \<and> Q' = (if c \<and> q \<notin> seen then Q @ [q] else Q)"
  by (auto simp: probe_def)

lemma probe_ok:
  "c \<longrightarrow> inGrid q \<Longrightarrow> probe seen c q Q = Inr (if c \<and> q \<notin> seen then Q @ [q] else Q)"
  by (simp add: probe_Inr)

lemma enqueue_ok:
  assumes "\<forall>q\<in>neighbours bounds p. inGrid q"
  shows "\<exists>Q'. enqueue bounds seen p Q = Inr Q' \<and> set Q' = set Q \<union> (neighbours bounds p - seen)"
proof -
  have l: "X p > X (Min_pt bounds) \<longrightarrow> inGrid \<lparr>X = X p - 1, Y = Y p\<rparr>"
    and u: "Y p > Y (Min_pt bounds) \<longrightarrow> inGrid \<lparr>X = X p, Y = Y p - 1\<rparr>"
    and r: "X p < X (Max_pt bounds) \<longrightarrow> inGrid \<lparr>X = X p + 1, Y = Y p\<rparr>"
    and d: "Y p < Y (Max_pt bounds) \<longrightarrow> inGrid \<lparr>X = X p, Y = Y p + 1\<rparr>"
    using assms by (auto simp: neighbours_def)
  show ?thesis
    unfolding enqueue_def
    by (simp only: probe_ok [OF l] probe_ok [OF u] probe_ok [OF r] probe_ok [OF d] sum.case)
       (auto simp: neighbours_def)
qed


lemma neighbours_inGrid:
  assumes "inGridRect bounds" and "inGrid p"
  shows "\<forall>q\<in>neighbours bounds p. inGrid q"
  using assms by (auto simp: neighbours_def inGridRect_def inGrid_def split: if_splits)

lemma neighbours_iff:
  assumes "inRect bounds p"
  shows "q \<in> neighbours bounds p \<longleftrightarrow> adjacent p q \<and> inRect bounds q"
  using assms by (auto simp: neighbours_def adjacent_def inRect_def split: if_splits)



section \<open>The failure policy\<close>

text \<open>
  Claim C6. \<^verbatim>\<open>FindLunarLimb\<close> ends in \<^verbatim>\<open>log.Fatal\<close> exactly when the fill has produced
  a limb of radius zero, and returns the limb that the fill produced exactly when its radius
  is not zero. (A run that the runtime stops on an index outside \<^verbatim>\<open>seen\<close> produces no limb.)
\<close>

theorem FindLunarLimb_fatal_iff:
  "(FindLunarLimb toGray img = Inl LimbNotFound \<longleftrightarrow>
      (\<exists>ll. fillStep toGray img = Inr ll \<and> Radius ll = 0)) \<and>
   (FindLunarLimb toGray img = Inr ll \<longleftrightarrow> fillStep toGray img = Inr ll \<and> Radius ll \<noteq> 0)"
proof (cases "fillStep toGray img")
  case (Inl e)
  have "e = IndexOutOfRange"
  proof -
    have "floodfill g i t s q l \<noteq> Inl LimbNotFound" for g i t s q l
    proof (induction g i t s q l rule: floodfill.induct)
      case 1
      show ?case by simp
    next
      case (2 toGray img thresh seen p toVisit ll)
      then show ?case
        by (auto simp: floodfill.simps enqueue_def probe_def split: sum.splits if_splits)
    qed
    then show ?thesis using Inl by (cases e) (auto simp: fillStep_def Let_def)
  qed
  then show ?thesis using Inl by (simp add: FindLunarLimb_def)
next
  case (Inr a)
  then show ?thesis by (auto simp: FindLunarLimb_def)
qed

text \<open>The white image gives radius 0 and is fatal; \<open>imgL\<close> gives radius 1 and is returned.\<close>

theorem FindLunarLimb_fatal_iff_witness:
  "FindLunarLimb ColToGrayU16 imgWhite = Inl LimbNotFound \<and>
   (\<exists>ll. fillStep ColToGrayU16 imgWhite = Inr ll \<and> Radius ll = 0) \<and>
   FindLunarLimb ColToGrayU16 imgL =
     Inr \<lparr>LuminalCenter = \<lparr>X = 0, Y = 0\<rparr>, Brightness = 0, Bounds = rect 1 2 6 2\<rparr> \<and>
   Radius \<lparr>LuminalCenter = \<lparr>X = 0, Y = 0\<rparr>, Brightness = 0, Bounds = rect 1 2 6 2\<rparr> = 1"
proof -
  have w: "FindLunarLimb ColToGrayU16 imgWhite = Inl LimbNotFound"
    by (simp add: imgWhite_def detector_eval)
  have r: "Radius \<lparr>LuminalCenter = \<lparr>X = 0, Y = 0\<rparr>, Brightness = 0, Bounds = rect 1 2 6 2\<rparr> = 1"
    by (simp add: detector_eval)
  from FindLunarLimb_fatal_iff [of ColToGrayU16 imgWhite] w
  have "\<exists>ll. fillStep ColToGrayU16 imgWhite = Inr ll \<and> Radius ll = 0" by simp
  moreover from FindLunarLimb_fatal_iff [of ColToGrayU16 imgL
      "\<lparr>LuminalCenter = \<lparr>X = 0, Y = 0\<rparr>, Brightness = 0, Bounds = rect 1 2 6 2\<rparr>"] imgL_fill r
  have "FindLunarLimb ColToGrayU16 imgL =
     Inr \<lparr>LuminalCenter = \<lparr>X = 0, Y = 0\<rparr>, Brightness = 0, Bounds = rect 1 2 6 2\<rparr>"
    by simp
  ultimately show ?thesis using w r by simp
qed

section \<open>The visited grid\<close>

lemma floodfill_no_panic:
  assumes "inGridRect (ImgBounds img)" and "\<forall>p\<in>set toVisit. inGrid p"
  shows "\<exists>ll'. floodfill toGray img thresh seen toVisit ll = Inr ll'"
  using assms
proof (induction toGray img thresh seen toVisit ll rule: floodfill.induct)
  case (1 toGray img thresh seen ll)
  show ?case by simp
next
  case (2 toGray img thresh seen p toVisit ll)
  have p: "inGrid p" and rest: "\<forall>q\<in>set toVisit. inGrid q" using "2.prems"(2) by simp_all
  show ?case
  proof (cases "p \<in> seen")
    case True
    then show ?thesis using "2.IH"(1) [OF _ True "2.prems"(1) rest] p by (simp add: floodfill.simps)
  next
    case unseen: False
    show ?thesis
    proof (cases "toGray (At img (X p) (Y p)) > thresh")
      case True
      then show ?thesis using "2.IH"(2) [OF _ unseen True "2.prems"(1) rest] p unseen by (simp add: floodfill.simps)
    next
      case dark: False
      obtain Q' where Q': "enqueue (ImgBounds img) (insert p seen) p toVisit = Inr Q'"
        and set': "set Q' = set toVisit \<union> (neighbours (ImgBounds img) p - insert p seen)"
        using enqueue_ok [OF neighbours_inGrid [OF "2.prems"(1) p]] by blast
      have "\<forall>q\<in>set Q'. inGrid q"
        using set' rest neighbours_inGrid [OF "2.prems"(1) p] by auto
      then show ?thesis
        using "2.IH"(3) [OF _ unseen dark Q' "2.prems"(1)] p unseen dark Q' by (simp add: floodfill.simps)
    qed
  qed
qed

lemma sdiv_nonneg:
  fixes s n :: int
  assumes "0 \<le> s" and "0 < n"
  shows "s sdiv n = s div n"
  using assms by (cases "s = 0") (simp_all add: signed_divide_int_def)

lemma centroid_inRect:
  assumes "qualifying img \<noteq> {}" and "inGridRect (ImgBounds img)"
  shows "inRect (ImgBounds img) (LuminalCenter (computeLuminalCenter toGray img ll))"
proof -
  let ?Q = "qualifying img"
  let ?n = "int (card ?Q)"
  let ?R = "ImgBounds img"
  have n: "0 < ?n" using assms(1) finite_qualifying [of img] by (simp add: card_gt_0_iff)
  have inR: "\<forall>p\<in>?Q. inRect ?R p" by (simp add: qualifying_def)
  have xlo: "X (Min_pt ?R) * ?n \<le> (\<Sum>p\<in>?Q. X p)"
    using sum_bounded_below [of ?Q "X (Min_pt ?R)" X] inR by (simp add: inRect_def mult.commute)
  have xhi: "(\<Sum>p\<in>?Q. X p) \<le> X (Max_pt ?R) * ?n"
    using sum_bounded_above [of ?Q X "X (Max_pt ?R)"] inR by (simp add: inRect_def mult.commute)
  have ylo: "Y (Min_pt ?R) * ?n \<le> (\<Sum>p\<in>?Q. Y p)"
    using sum_bounded_below [of ?Q "Y (Min_pt ?R)" Y] inR by (simp add: inRect_def mult.commute)
  have yhi: "(\<Sum>p\<in>?Q. Y p) \<le> Y (Max_pt ?R) * ?n"
    using sum_bounded_above [of ?Q Y "Y (Max_pt ?R)"] inR by (simp add: inRect_def mult.commute)
  have x0: "0 \<le> (\<Sum>p\<in>?Q. X p)" and y0: "0 \<le> (\<Sum>p\<in>?Q. Y p)"
    using inR assms(2) by (auto intro!: sum_nonneg simp: inRect_def inGridRect_def)
  have between: "m * ?n \<le> s \<Longrightarrow> s \<le> M * ?n \<Longrightarrow> m \<le> s div ?n \<and> s div ?n \<le> M" for m s M :: int
    using n zdiv_mono1 [of "m * ?n" s ?n] zdiv_mono1 [of s "M * ?n" ?n] by simp
  show ?thesis
    using assms(1) between [OF xlo xhi] between [OF ylo yhi]
    by (simp add: computeLuminalCenter_unfold Let_def inRect_def sdiv_nonneg [OF x0 n] sdiv_nonneg [OF y0 n])
qed

lemma seed_inGrid:
  assumes "inGridRect (ImgBounds img)"
  shows "inGrid (LuminalCenter (computeLuminalCenter toGray img emptyLimb))"
proof (cases "qualifying img = {}")
  case True
  then show ?thesis by (simp add: computeLuminalCenter_unfold emptyLimb_def ZP_def inGrid_def)
next
  case False
  from centroid_inRect [OF False assms, of toGray emptyLimb] assms
  show ?thesis by (simp add: inRect_def inGridRect_def inGrid_def)
qed

text \<open>
  Claim C9, amended. \<^verbatim>\<open>seen\<close> is a fixed 10000 by 10000 grid indexed with absolute pixel
  coordinates and no bounds check. For every image whose bounds, \<^verbatim>\<open>Max\<close> corner included,
  lie in \<open>0 \<le> x < 10000\<close> and \<open>0 \<le> y < 10000\<close>, every access is in range.
\<close>

theorem FindLunarLimb_in_range:
  assumes "inGridRect (ImgBounds img)"
  shows "FindLunarLimb toGray img \<noteq> Inl IndexOutOfRange"
proof -
  have "\<forall>p\<in>set [LuminalCenter (computeLuminalCenter toGray img emptyLimb)]. inGrid p"
    using seed_inGrid [OF assms, of toGray] by simp
  from floodfill_no_panic [OF assms this]
  obtain ll where "fillStep toGray img = Inr ll"
    unfolding fillStep_def Let_def by blast
  then show ?thesis by (simp add: FindLunarLimb_def)
qed

text \<open>\<open>imgW\<close> lies in the grid and is processed without an index error.\<close>

theorem FindLunarLimb_in_range_witness:
  "inGridRect (ImgBounds imgW) \<and> FindLunarLimb ColToGrayU16 imgW \<noteq> Inl IndexOutOfRange \<and>
   FindLunarLimb ColToGrayU16 imgW =
     Inr \<lparr>LuminalCenter = \<lparr>X = 5, Y = 1\<rparr>, Brightness = 30, Bounds = rect 0 0 12 2\<rparr>"
proof -
  have h: "inGridRect (ImgBounds imgW)"
    by (simp add: imgW_def picture_def rect_def inGridRect_def)
  have "FindLunarLimb ColToGrayU16 imgW =
     Inr \<lparr>LuminalCenter = \<lparr>X = 5, Y = 1\<rparr>, Brightness = 30, Bounds = rect 0 0 12 2\<rparr>"
    by (simp add: imgW_def detector_eval)
  then show ?thesis using FindLunarLimb_in_range [OF h, of ColToGrayU16] h by simp
qed

text \<open>
  The claim as stated fails in both halves. The white image has bounds that start at
  \<open>-1\<close>, and no access is out of range: the seed \<open>(0, 0)\<close> is too bright and nothing else
  is read. The pixels of \<open>imgEdge\<close> all lie in column 9999, and an access is out of range:
  the fill tests the neighbour in column \<^verbatim>\<open>Max.X\<close>, which is 10000.
\<close>

theorem FindLunarLimb_in_range_counterexample:
  "ImgBounds imgWhite = rect (- 1) (- 1) 1 1 \<and>
   FindLunarLimb ColToGrayU16 imgWhite = Inl LimbNotFound \<and>
   ImgBounds imgEdge = rect 9999 0 10000 1 \<and>
   FindLunarLimb ColToGrayU16 imgEdge = Inl IndexOutOfRange"
  by (simp add: imgWhite_def imgEdge_def detector_eval)

section \<open>The flood fill\<close>

text \<open>Growing the bounds by a point, as long as the \<^verbatim>\<open>Max.X == 0\<close> test of \<^verbatim>\<open>Grow\<close> does not fire again.\<close>

lemma GrowRectangle_minmax:
  assumes "X (Min_pt r) \<le> X (Max_pt r)" and "Y (Min_pt r) \<le> Y (Max_pt r)"
  shows "GrowRectangle r p =
         \<lparr>Min_pt = \<lparr>X = min (X p) (X (Min_pt r)), Y = min (Y p) (Y (Min_pt r))\<rparr>,
          Max_pt = \<lparr>X = max (X p) (X (Max_pt r)), Y = max (Y p) (Y (Max_pt r))\<rparr>\<rparr>"
  using assms by (cases r) (auto simp: GrowRectangle_def Let_def min_def max_def)

lemma boundingBox_single: "boundingBox {p} = \<lparr>Min_pt = p, Max_pt = p\<rparr>"
  by (simp add: boundingBox_def)

lemma boundingBox_insert:
  assumes "finite A" and "A \<noteq> {}"
  shows "GrowRectangle (boundingBox A) p = boundingBox (insert p A)"
proof -
  have x: "Min (X ` A) \<le> Max (X ` A)" and y: "Min (Y ` A) \<le> Max (Y ` A)"
    using assms by (simp_all add: Min_le_iff)
  have "GrowRectangle (boundingBox A) p =
        \<lparr>Min_pt = \<lparr>X = min (X p) (Min (X ` A)), Y = min (Y p) (Min (Y ` A))\<rparr>,
         Max_pt = \<lparr>X = max (X p) (Max (X ` A)), Y = max (Y p) (Max (Y ` A))\<rparr>\<rparr>"
    using x y by (subst GrowRectangle_minmax) (simp_all add: boundingBox_def)
  also have "\<dots> = boundingBox (insert p A)"
    using assms by (simp add: boundingBox_def)
  finally show ?thesis .
qed

lemma Grow_first:
  assumes "Bounds ll = ZR"
  shows "Bounds (Grow ll p) = boundingBox {p}"
  using assms by (simp add: Grow_def ZR_def ZP_def boundingBox_single)

lemma Grow_next:
  assumes "Bounds ll = boundingBox A" and "finite A" and "s \<in> A" and "0 < X s"
  shows "Bounds (Grow ll p) = boundingBox (insert p A)"
proof -
  have "X s \<le> Max (X ` A)" using assms(2,3) by simp
  then have "X (Max_pt (Bounds ll)) \<noteq> 0" using assms(1,4) by (simp add: boundingBox_def)
  moreover have "A \<noteq> {}" using assms(3) by auto
  ultimately show ?thesis using assms(1,2) by (simp add: Grow_def boundingBox_insert)
qed

lemma Grow_keeps:
  "LuminalCenter (Grow ll p) = LuminalCenter ll" "Brightness (Grow ll p) = Brightness ll"
  by (simp_all add: Grow_def)

text \<open>The loop invariant holds at the start, is kept by each pass, and gives the result at the end.\<close>

lemma accepted_insert_dark:
  "dark toGray img thresh p \<Longrightarrow>
   accepted toGray img thresh (insert p seen) = insert p (accepted toGray img thresh seen)"
  by (auto simp: accepted_def)

lemma accepted_insert_bright:
  "\<not> dark toGray img thresh p \<Longrightarrow>
   accepted toGray img thresh (insert p seen) = accepted toGray img thresh seen"
  by (auto simp: accepted_def)

lemma finite_accepted:
  assumes "\<forall>p\<in>seen. inRect r p"
  shows "finite (accepted toGray img thresh seen)"
proof -
  have "accepted toGray img thresh seen \<subseteq> {p. inRect r p}"
    using assms by (auto simp: accepted_def)
  then show ?thesis by (rule finite_subset) (rule finite_inRect)
qed

lemma fill_inv_start:
  assumes "inRect (ImgBounds img) s" and "Bounds ll = ZR"
  shows "fill_inv toGray img thresh s {} [s] ll"
  using assms by (auto simp: fill_inv_def accepted_def intro: reached.seed)

lemma inv_skip:
  assumes "fill_inv toGray img thresh s seen (p # toVisit) ll" and "p \<in> seen"
  shows "fill_inv toGray img thresh s seen toVisit ll"
  using assms unfolding fill_inv_def
  by (auto split: if_splits)

lemma inv_bright:
  assumes "fill_inv toGray img thresh s seen (p # toVisit) ll"
    and "\<not> dark toGray img thresh p"
  shows "fill_inv toGray img thresh s (insert p seen) toVisit ll"
  using assms unfolding fill_inv_def
  by (auto simp: accepted_insert_bright split: if_splits)

lemma inv_accept:
  assumes inv: "fill_inv toGray img thresh s seen (p # toVisit) ll"
    and dk: "dark toGray img thresh p"
    and Q': "set Q' = set toVisit \<union> (neighbours (ImgBounds img) p - insert p seen)"
    and pos: "0 < X s"
  shows "fill_inv toGray img thresh s (insert p seen) Q' (Grow ll p)"
proof -
  let ?R = "ImgBounds img"
  let ?L = "reached toGray img thresh s"
  let ?A = "accepted toGray img thresh seen"
  have pR: "inRect ?R p" and QR: "\<forall>q\<in>set toVisit. inRect ?R q" and sR: "\<forall>q\<in>seen. inRect ?R q"
    using inv by (simp_all add: fill_inv_def)
  have reach: "\<forall>q\<in>set (p # toVisit) \<union> seen. dark toGray img thresh q \<longrightarrow> q \<in> ?L"
    using inv by (simp add: fill_inv_def)
  have closed: "\<forall>a\<in>?A. \<forall>q. adjacent a q \<and> inRect ?R q \<longrightarrow> q \<in> seen \<or> q \<in> set (p # toVisit)"
    using inv by (simp add: fill_inv_def)
  have sd: "s \<in> seen \<or> s \<in> set (p # toVisit)"
    using inv by (simp add: fill_inv_def)
  have pL: "p \<in> ?L" using reach dk by simp
  have nb: "q \<in> neighbours ?R p \<longleftrightarrow> adjacent p q \<and> inRect ?R q" for q
    by (rule neighbours_iff [OF pR])
  have c1: "\<forall>q\<in>set Q'. inRect ?R q" using Q' QR nb by auto
  have c2: "\<forall>q\<in>insert p seen. inRect ?R q" using pR sR by simp
  have c3: "\<forall>q\<in>set Q' \<union> insert p seen. dark toGray img thresh q \<longrightarrow> q \<in> ?L"
  proof (intro ballI impI)
    fix q assume q: "q \<in> set Q' \<union> insert p seen" and dq: "dark toGray img thresh q"
    show "q \<in> ?L"
    proof (cases "q \<in> set (p # toVisit) \<union> seen")
      case True
      then show ?thesis using reach dq by blast
    next
      case False
      then have "q \<in> neighbours ?R p" using q Q' by auto
      then have "adjacent p q" and "inRect ?R q" using nb by simp_all
      with pL show ?thesis using dq by (rule reached.step)
    qed
  qed
  have c4: "\<forall>a\<in>accepted toGray img thresh (insert p seen).
              \<forall>q. adjacent a q \<and> inRect ?R q \<longrightarrow> q \<in> insert p seen \<or> q \<in> set Q'"
  proof (intro ballI allI impI)
    fix a q assume a: "a \<in> accepted toGray img thresh (insert p seen)"
      and q: "adjacent a q \<and> inRect ?R q"
    show "q \<in> insert p seen \<or> q \<in> set Q'"
    proof (cases "a = p")
      case True
      then have "q \<in> neighbours ?R p" using q nb by simp
      then show ?thesis using Q' by auto
    next
      case False
      then have "a \<in> ?A" using a by (auto simp: accepted_def)
      then have "q \<in> seen \<or> q \<in> set (p # toVisit)" using closed q by blast
      then show ?thesis using Q' by auto
    qed
  qed
  have c5: "s \<in> insert p seen \<or> s \<in> set Q'" using sd Q' by auto
  have A': "accepted toGray img thresh (insert p seen) = insert p ?A"
    by (rule accepted_insert_dark [OF dk])
  have c6: "s \<in> insert p ?A \<and> Bounds (Grow ll p) = boundingBox (insert p ?A)"
  proof (cases "?A = {}")
    case True
    then have "set (p # toVisit) \<subseteq> {s}" and z: "Bounds ll = ZR"
      using inv by (simp_all add: fill_inv_def)
    then have "p = s" by simp
    then show ?thesis using True Grow_first [OF z, of p] by simp
  next
    case False
    then have sA: "s \<in> ?A" and b: "Bounds ll = boundingBox ?A"
      using inv by (simp_all add: fill_inv_def)
    show ?thesis using sA Grow_next [OF b finite_accepted [OF sR] sA pos] by simp
  qed
  show ?thesis
    unfolding fill_inv_def A'
    using c1 c2 c3 c4 [unfolded A'] c5 c6 by simp
qed

lemma inv_done:
  assumes inv: "fill_inv toGray img thresh s seen [] ll"
  shows "Bounds ll = (if reached toGray img thresh s = {} then ZR
                      else boundingBox (reached toGray img thresh s))"
proof -
  let ?R = "ImgBounds img"
  let ?L = "reached toGray img thresh s"
  let ?A = "accepted toGray img thresh seen"
  have s: "s \<in> seen" using inv by (simp add: fill_inv_def)
  have closed: "\<forall>a\<in>?A. \<forall>q. adjacent a q \<and> inRect ?R q \<longrightarrow> q \<in> seen"
    using inv by (simp add: fill_inv_def)
  have sub: "?A \<subseteq> ?L" using inv by (auto simp: fill_inv_def accepted_def)
  have "q \<in> ?A" if "q \<in> ?L" for q
    using that
  proof (induction rule: reached.induct)
    case seed
    then show ?case using s by (simp add: accepted_def)
  next
    case (step p q)
    then have "q \<in> seen" using closed by blast
    then show ?case using step.hyps(4) by (simp add: accepted_def)
  qed
  then have eq: "?A = ?L" using sub by blast
  show ?thesis using inv unfolding fill_inv_def eq by (simp split: if_splits)
qed

lemma floodfill_inv:
  assumes "inGridRect (ImgBounds img)" and "0 < X s"
    and "fill_inv toGray img thresh s seen toVisit ll"
  shows "\<exists>ll'. floodfill toGray img thresh seen toVisit ll = Inr ll' \<and>
               Bounds ll' = (if reached toGray img thresh s = {} then ZR
                             else boundingBox (reached toGray img thresh s)) \<and>
               LuminalCenter ll' = LuminalCenter ll \<and> Brightness ll' = Brightness ll"
  using assms
proof (induction toGray img thresh seen toVisit ll rule: floodfill.induct)
  case (1 toGray img thresh seen ll)
  then show ?case using inv_done [of toGray img thresh s seen ll] by simp
next
  case (2 toGray img thresh seen p toVisit ll)
  note grid = "2.prems"(1) and pos = "2.prems"(2) and inv = "2.prems"(3)
  have pR: "inRect (ImgBounds img) p" using inv by (simp add: fill_inv_def)
  have p: "inGrid p" using pR grid by (simp add: inRect_def inGridRect_def inGrid_def)
  show ?case
  proof (cases "p \<in> seen")
    case True
    show ?thesis
      using "2.IH"(1) [OF _ True grid pos inv_skip [OF inv True]] p True
      by (simp add: floodfill.simps)
  next
    case unseen: False
    show ?thesis
    proof (cases "toGray (At img (X p) (Y p)) > thresh")
      case True
      then have nd: "\<not> dark toGray img thresh p" by (simp add: dark_def)
      show ?thesis
        using "2.IH"(2) [OF _ unseen True grid pos inv_bright [OF inv nd]] p unseen True
        by (simp add: floodfill.simps)
    next
      case False
      then have dk: "dark toGray img thresh p" by (simp add: dark_def)
      obtain Q' where Q': "enqueue (ImgBounds img) (insert p seen) p toVisit = Inr Q'"
        and set': "set Q' = set toVisit \<union> (neighbours (ImgBounds img) p - insert p seen)"
        using enqueue_ok [OF neighbours_inGrid [OF grid p]] by blast
      show ?thesis
        using "2.IH"(3) [OF _ unseen False Q' grid pos inv_accept [OF inv dk set' pos]]
          p unseen False Q'
        by (simp add: floodfill.simps Grow_keeps)
    qed
  qed
qed

lemma inImage_inRect: "inImage r p \<Longrightarrow> inRect r p"
  by (simp add: inImage_def inRect_def)

lemma limbPixels_subset:
  "limbPixels toGray img thresh s \<subseteq> insert s {p. inImage (ImgBounds img) p}"
proof
  fix q assume "q \<in> limbPixels toGray img thresh s"
  then show "q \<in> insert s {p. inImage (ImgBounds img) p}"
    by (induction rule: limbPixels.induct) simp_all
qed

lemma finite_limbPixels: "finite (limbPixels toGray img thresh s)"
proof -
  have "{p. inImage (ImgBounds img) p} \<subseteq> {p. inRect (ImgBounds img) p}"
    using inImage_inRect by auto
  then have "finite {p. inImage (ImgBounds img) p}"
    by (rule finite_subset) (rule finite_inRect)
  then show ?thesis
    by (intro finite_subset [OF limbPixels_subset]) simp
qed

lemma limbPixels_sub_reached:
  "limbPixels toGray img thresh s \<subseteq> reached toGray img thresh s"
proof
  fix q assume "q \<in> limbPixels toGray img thresh s"
  then show "q \<in> reached toGray img thresh s"
  proof (induction rule: limbPixels.induct)
    case seed
    then show ?case by (rule reached.seed)
  next
    case (step p q)
    from step.IH step.hyps(2) inImage_inRect [OF step.hyps(3)] step.hyps(4)
    show ?case by (rule reached.step)
  qed
qed

text \<open>
  As long as the limb keeps off the last column and the last row of the image, the loop
  never steps onto the \<^verbatim>\<open>Max\<close> column or row, and what it can accept is the limb.
\<close>

lemma reached_eq_limbPixels:
  assumes "\<forall>p\<in>limbPixels toGray img thresh s.
             X p < X (Max_pt (ImgBounds img)) - 1 \<and> Y p < Y (Max_pt (ImgBounds img)) - 1"
  shows "reached toGray img thresh s = limbPixels toGray img thresh s"
proof
  show "limbPixels toGray img thresh s \<subseteq> reached toGray img thresh s"
    by (rule limbPixels_sub_reached)
next
  show "reached toGray img thresh s \<subseteq> limbPixels toGray img thresh s"
  proof
    fix q assume "q \<in> reached toGray img thresh s"
    then show "q \<in> limbPixels toGray img thresh s"
    proof (induction rule: reached.induct)
      case seed
      then show ?case by (rule limbPixels.seed)
    next
      case (step p q)
      have "X p < X (Max_pt (ImgBounds img)) - 1" and "Y p < Y (Max_pt (ImgBounds img)) - 1"
        using assms step.IH by simp_all
      then have "inImage (ImgBounds img) q"
        using step.hyps(2,3) by (auto simp: adjacent_def inRect_def inImage_def)
      with step.IH step.hyps(2) show ?case using step.hyps(4) by (rule limbPixels.step)
    qed
  qed
qed

text \<open>
  Claim C1, amended. For every image whose bounds, \<^verbatim>\<open>Max\<close> corner included, lie in the
  10000 by 10000 grid, whose centroid has a positive \<open>x\<close> coordinate and whose limb (the
  pixels of the image that do not exceed the threshold and can be reached from the centroid
  by 4-connectivity through such pixels) keeps off the last column and the last row of the
  image, the flood fill ends without an error and leaves in \<^verbatim>\<open>Bounds\<close> exactly the bounding
  rectangle of the limb (the zero rectangle when the centroid itself exceeds the
  threshold). A dequeued pixel that exceeds the threshold is marked seen and nothing else:
  the limb is unchanged and no neighbour is enqueued.
\<close>

theorem fillStep_bounds:
  assumes "inGridRect (ImgBounds img)"
    and "0 < X (LuminalCenter (computeLuminalCenter toGray img emptyLimb))"
    and "\<forall>p\<in>limbPixels toGray img (fillThreshold (computeLuminalCenter toGray img emptyLimb))
                 (LuminalCenter (computeLuminalCenter toGray img emptyLimb)).
           X p < X (Max_pt (ImgBounds img)) - 1 \<and> Y p < Y (Max_pt (ImgBounds img)) - 1"
  shows "(\<exists>ll. fillStep toGray img = Inr ll \<and>
            Bounds ll =
              (let L = limbPixels toGray img (fillThreshold (computeLuminalCenter toGray img emptyLimb))
                         (LuminalCenter (computeLuminalCenter toGray img emptyLimb))
               in if L = {} then ZR else boundingBox L)) \<and>
         (\<forall>thresh seen p toVisit ll.
            inGrid p \<and> p \<notin> seen \<and> thresh < toGray (At img (X p) (Y p)) \<longrightarrow>
            floodfill toGray img thresh seen (p # toVisit) ll =
            floodfill toGray img thresh (insert p seen) toVisit ll)"
proof
  let ?ll = "computeLuminalCenter toGray img emptyLimb"
  have q: "qualifying img \<noteq> {}"
  proof
    assume "qualifying img = {}"
    then have "LuminalCenter ?ll = ZP" by (simp add: computeLuminalCenter_unfold emptyLimb_def)
    then show False using assms(2) by (simp add: ZP_def)
  qed
  have seed: "inRect (ImgBounds img) (LuminalCenter ?ll)"
    by (rule centroid_inRect [OF q assms(1)])
  have "Bounds ?ll = ZR"
    by (simp add: computeLuminalCenter_unfold emptyLimb_def Let_def)
  then have "fill_inv toGray img (fillThreshold ?ll) (LuminalCenter ?ll) {} [LuminalCenter ?ll] ?ll"
    by (rule fill_inv_start [OF seed])
  from floodfill_inv [OF assms(1) assms(2) this]
  show "\<exists>ll. fillStep toGray img = Inr ll \<and>
            Bounds ll =
              (let L = limbPixels toGray img (fillThreshold ?ll) (LuminalCenter ?ll)
               in if L = {} then ZR else boundingBox L)"
    unfolding fillStep_def Let_def reached_eq_limbPixels [OF assms(3)] by blast
next
  show "\<forall>thresh seen p toVisit ll.
            inGrid p \<and> p \<notin> seen \<and> thresh < toGray (At img (X p) (Y p)) \<longrightarrow>
            floodfill toGray img thresh seen (p # toVisit) ll =
            floodfill toGray img thresh (insert p seen) toVisit ll"
    by (simp add: floodfill.simps)
qed

text \<open>
  On \<open>imgSpot\<close> the limb is the two dim red pixels, away from the border, and the bounds
  are their bounding rectangle; a white pixel, taken from the queue, changes nothing.
\<close>

lemma imgSpot_center: "computeLuminalCenter ColToGrayU16 imgSpot emptyLimb =
    \<lparr>LuminalCenter = \<lparr>X = 3, Y = 1\<rparr>, Brightness = 57, Bounds = rect 0 0 0 0\<rparr>"
  by (simp add: imgSpot_def detector_eval)

lemma imgSpot_fill: "fillStep ColToGrayU16 imgSpot =
    Inr \<lparr>LuminalCenter = \<lparr>X = 3, Y = 1\<rparr>, Brightness = 57, Bounds = rect 3 1 4 1\<rparr>"
  by (simp add: imgSpot_def detector_eval)

lemma imgSpot_limb:
  "limbPixels ColToGrayU16 imgSpot 0x1000 \<lparr>X = 3, Y = 1\<rparr> \<subseteq> {\<lparr>X = 3, Y = 1\<rparr>, \<lparr>X = 4, Y = 1\<rparr>}"
proof
  fix q assume "q \<in> limbPixels ColToGrayU16 imgSpot 0x1000 \<lparr>X = 3, Y = 1\<rparr>"
  then show "q \<in> {\<lparr>X = 3, Y = 1\<rparr>, \<lparr>X = 4, Y = 1\<rparr>}"
  proof (induction rule: limbPixels.induct)
    case seed
    show ?case by simp
  next
    case (step p q)
    then show ?case
      by (auto simp: adjacent_def dark_def imgSpot_def picture_def rect_def gray_white gray_transparent
               split: if_splits)
  qed
qed

theorem fillStep_bounds_witness:
  "inGridRect (ImgBounds imgSpot) \<and>
   0 < X (LuminalCenter (computeLuminalCenter ColToGrayU16 imgSpot emptyLimb)) \<and>
   limbPixels ColToGrayU16 imgSpot 0x1000 \<lparr>X = 3, Y = 1\<rparr> \<subseteq> {\<lparr>X = 3, Y = 1\<rparr>, \<lparr>X = 4, Y = 1\<rparr>} \<and>
   fillStep ColToGrayU16 imgSpot =
     Inr \<lparr>LuminalCenter = \<lparr>X = 3, Y = 1\<rparr>, Brightness = 57, Bounds = rect 3 1 4 1\<rparr> \<and>
   boundingBox (limbPixels ColToGrayU16 imgSpot 0x1000 \<lparr>X = 3, Y = 1\<rparr>) = rect 3 1 4 1 \<and>
   0x1000 < ColToGrayU16 (At imgSpot 2 1) \<and>
   floodfill ColToGrayU16 imgSpot 0x1000 {} [\<lparr>X = 2, Y = 1\<rparr>] emptyLimb = Inr emptyLimb"
proof -
  have h1: "inGridRect (ImgBounds imgSpot)"
    by (simp add: imgSpot_def picture_def rect_def inGridRect_def)
  have h2: "0 < X (LuminalCenter (computeLuminalCenter ColToGrayU16 imgSpot emptyLimb))"
    by (simp add: imgSpot_center)
  have th: "fillThreshold (computeLuminalCenter ColToGrayU16 imgSpot emptyLimb) = 0x1000"
    and sd: "LuminalCenter (computeLuminalCenter ColToGrayU16 imgSpot emptyLimb) = \<lparr>X = 3, Y = 1\<rparr>"
    by (simp_all add: imgSpot_center fillThreshold_def)
  have h3: "\<forall>p\<in>limbPixels ColToGrayU16 imgSpot
                   (fillThreshold (computeLuminalCenter ColToGrayU16 imgSpot emptyLimb))
                   (LuminalCenter (computeLuminalCenter ColToGrayU16 imgSpot emptyLimb)).
              X p < X (Max_pt (ImgBounds imgSpot)) - 1 \<and> Y p < Y (Max_pt (ImgBounds imgSpot)) - 1"
    unfolding th sd using imgSpot_limb by (auto simp: imgSpot_def picture_def rect_def)
  have "dark ColToGrayU16 imgSpot 0x1000 \<lparr>X = 3, Y = 1\<rparr>"
    by (simp add: dark_def imgSpot_def detector_eval)
  then have ne: "limbPixels ColToGrayU16 imgSpot 0x1000 \<lparr>X = 3, Y = 1\<rparr> \<noteq> {}"
    using limbPixels.seed by blast
  have bright: "0x1000 < ColToGrayU16 (At imgSpot 2 1)"
    by (simp add: imgSpot_def detector_eval)
  have pt: "inGrid \<lparr>X = 2, Y = 1\<rparr>" by (simp add: inGrid_def)
  note main = fillStep_bounds [OF h1 h2 h3]
  from main ne
  have box: "boundingBox (limbPixels ColToGrayU16 imgSpot 0x1000 \<lparr>X = 3, Y = 1\<rparr>) = rect 3 1 4 1"
    unfolding th sd by (simp add: imgSpot_fill Let_def)
  from main have "floodfill ColToGrayU16 imgSpot 0x1000 {} (\<lparr>X = 2, Y = 1\<rparr> # []) emptyLimb =
      floodfill ColToGrayU16 imgSpot 0x1000 (insert \<lparr>X = 2, Y = 1\<rparr> {}) [] emptyLimb"
    using pt bright by simp
  then have "floodfill ColToGrayU16 imgSpot 0x1000 {} [\<lparr>X = 2, Y = 1\<rparr>] emptyLimb = Inr emptyLimb"
    by simp
  then show ?thesis using h1 h2 imgSpot_limb imgSpot_fill box bright by simp
qed

text \<open>
  The claim as stated fails three times. On \<open>imgNeg\<close> the fill stops on the index \<open>-1\<close>
  and computes no bounds. On \<open>imgL\<close> the fill starts in column 0 and the bounds it
  returns miss the seed. \<open>imgLeak\<close> lies in the grid and its centroid is \<open>(4, 1)\<close>, but its
  limb, the pixels \<open>(4, 1)\<close> and \<open>(5, 1)\<close>, touches the last column: the fill steps on to
  \<open>(6, 1)\<close>, which is no pixel of the image and reads as the zero colour, runs along the
  \<^verbatim>\<open>Max\<close> column and row, and returns the bounds (0,0)-(6,3).
\<close>

lemma imgLeak_center: "computeLuminalCenter ColToGrayU16 imgLeak emptyLimb =
    \<lparr>LuminalCenter = \<lparr>X = 4, Y = 1\<rparr>, Brightness = 58, Bounds = rect 0 0 0 0\<rparr>"
  by (simp add: imgLeak_def detector_eval)

lemma imgLeak_fill: "fillStep ColToGrayU16 imgLeak =
    Inr \<lparr>LuminalCenter = \<lparr>X = 4, Y = 1\<rparr>, Brightness = 58, Bounds = rect 0 0 6 3\<rparr>"
  by (simp add: imgLeak_def detector_eval)

theorem fillStep_bounds_counterexample:
  "fillStep ColToGrayU16 imgNeg = Inl IndexOutOfRange \<and>
   (\<exists>ll. fillStep ColToGrayU16 imgL = Inr ll \<and>
      Bounds ll \<noteq> boundingBox (limbPixels ColToGrayU16 imgL
                       (fillThreshold (computeLuminalCenter ColToGrayU16 imgL emptyLimb))
                       (LuminalCenter (computeLuminalCenter ColToGrayU16 imgL emptyLimb)))) \<and>
   inGridRect (ImgBounds imgLeak) \<and>
   0 < X (LuminalCenter (computeLuminalCenter ColToGrayU16 imgLeak emptyLimb)) \<and>
   (\<exists>ll. fillStep ColToGrayU16 imgLeak = Inr ll \<and> Bounds ll = rect 0 0 6 3 \<and>
      Bounds ll \<noteq> boundingBox (limbPixels ColToGrayU16 imgLeak
                       (fillThreshold (computeLuminalCenter ColToGrayU16 imgLeak emptyLimb))
                       (LuminalCenter (computeLuminalCenter ColToGrayU16 imgLeak emptyLimb))))"
proof (intro conjI)
  show "fillStep ColToGrayU16 imgNeg = Inl IndexOutOfRange"
    by (simp add: imgNeg_def detector_eval)
next
  let ?L = "limbPixels ColToGrayU16 imgL 0x40 ZP"
  have "dark ColToGrayU16 imgL 0x40 ZP"
    by (simp add: dark_def imgL_def detector_eval)
  then have "ZP \<in> ?L" by (rule limbPixels.seed)
  then have "Min (X ` ?L) \<le> X ZP"
    by (intro Min_le) (simp_all add: finite_limbPixels)
  then have "X (Min_pt (boundingBox ?L)) \<le> 0" by (simp add: boundingBox_def ZP_def)
  moreover have "X (Min_pt (rect 1 2 6 2)) = 1" by (simp add: rect_def)
  ultimately have "rect 1 2 6 2 \<noteq> boundingBox ?L" by auto
  then show "\<exists>ll. fillStep ColToGrayU16 imgL = Inr ll \<and>
      Bounds ll \<noteq> boundingBox (limbPixels ColToGrayU16 imgL
                       (fillThreshold (computeLuminalCenter ColToGrayU16 imgL emptyLimb))
                       (LuminalCenter (computeLuminalCenter ColToGrayU16 imgL emptyLimb)))"
    by (simp only: imgL_fill imgL_seed imgL_thresh) simp
next
  show "inGridRect (ImgBounds imgLeak)"
    by (simp add: imgLeak_def picture_def rect_def inGridRect_def)
next
  show "0 < X (LuminalCenter (computeLuminalCenter ColToGrayU16 imgLeak emptyLimb))"
    by (simp add: imgLeak_center)
next
  let ?s = "\<lparr>X = 4, Y = 1\<rparr>"
  let ?L = "limbPixels ColToGrayU16 imgLeak 0x1000 ?s"
  have th: "fillThreshold (computeLuminalCenter ColToGrayU16 imgLeak emptyLimb) = 0x1000"
    and sd: "LuminalCenter (computeLuminalCenter ColToGrayU16 imgLeak emptyLimb) = ?s"
    by (simp_all add: imgLeak_center fillThreshold_def)
  have "dark ColToGrayU16 imgLeak 0x1000 ?s"
    by (simp add: dark_def imgLeak_def detector_eval)
  then have ne: "?L \<noteq> {}" using limbPixels.seed by blast
  have "\<forall>p\<in>?L. X p \<le> 5"
    using limbPixels_subset [of ColToGrayU16 imgLeak "0x1000" ?s]
    by (auto simp: inImage_def imgLeak_def picture_def rect_def)
  then have "Max (X ` ?L) \<le> 5"
    using ne by (simp add: finite_limbPixels)
  then have "X (Max_pt (boundingBox ?L)) \<le> 5" by (simp add: boundingBox_def)
  moreover have "X (Max_pt (rect 0 0 6 3)) = 6" by (simp add: rect_def)
  ultimately have "rect 0 0 6 3 \<noteq> boundingBox ?L" by auto
  then show "\<exists>ll. fillStep ColToGrayU16 imgLeak = Inr ll \<and> Bounds ll = rect 0 0 6 3 \<and>
      Bounds ll \<noteq> boundingBox (limbPixels ColToGrayU16 imgLeak
                       (fillThreshold (computeLuminalCenter ColToGrayU16 imgLeak emptyLimb))
                       (LuminalCenter (computeLuminalCenter ColToGrayU16 imgLeak emptyLimb)))"
    unfolding th sd by (simp add: imgLeak_fill)
qed

section \<open>The bounds invariant\<close>

text \<open>
  Claim C2. Once a pixel has been accepted, \<^verbatim>\<open>Bounds\<close> should contain every accepted
  pixel, those in column 0 included. The code does not keep this: \<^verbatim>\<open>Grow\<close> takes
  \<^verbatim>\<open>Max.X == 0\<close> for a rectangle that was never set, so after accepting \<open>(0, 0)\<close> the next
  accepted pixel replaces the bounds instead of growing them. On \<open>imgL\<close> the detector
  accepts \<open>(0, 0)\<close> (its gray value is within the threshold \<open>0x0040\<close>) and returns the bounds
  (1,2)-(6,2), which do not contain it.
\<close>

theorem Grow_drops_column_zero:
  "Bounds (Grow (Grow emptyLimb \<lparr>X = 0, Y = 0\<rparr>) \<lparr>X = 0, Y = 1\<rparr>) = rect 0 1 0 1 \<and>
   \<not> inRect (rect 0 1 0 1) \<lparr>X = 0, Y = 0\<rparr> \<and>
   FindLunarLimb ColToGrayU16 imgL =
     Inr \<lparr>LuminalCenter = \<lparr>X = 0, Y = 0\<rparr>, Brightness = 0, Bounds = rect 1 2 6 2\<rparr> \<and>
   ColToGrayU16 (At imgL 0 0) \<le> 0x0040 \<and>
   \<not> inRect (rect 1 2 6 2) \<lparr>X = 0, Y = 0\<rparr>"
proof (intro conjI)
  show "Bounds (Grow (Grow emptyLimb \<lparr>X = 0, Y = 0\<rparr>) \<lparr>X = 0, Y = 1\<rparr>) = rect 0 1 0 1"
    by (simp add: Grow_def emptyLimb_def ZR_def ZP_def rect_def)
  show "\<not> inRect (rect 0 1 0 1) \<lparr>X = 0, Y = 0\<rparr>" by (simp add: inRect_def rect_def)
  show "FindLunarLimb ColToGrayU16 imgL =
     Inr \<lparr>LuminalCenter = \<lparr>X = 0, Y = 0\<rparr>, Brightness = 0, Bounds = rect 1 2 6 2\<rparr>"
    by (simp add: imgL_def detector_eval)
  show "ColToGrayU16 (At imgL 0 0) \<le> 0x0040" by (simp add: imgL_def detector_eval)
  show "\<not> inRect (rect 1 2 6 2) \<lparr>X = 0, Y = 0\<rparr>" by (simp add: inRect_def rect_def)
qed

section \<open>The transform algebra\<close>

text \<open>
  The affine and colour matrices of \<^verbatim>\<open>affine.go\<close> compute over all of \<^verbatim>\<open>float64\<close>: both
  signs, zeros, subnormal numbers, infinities and NaN, with division and the library's
  cosine and sine. The rounding model of the luminance covers the products and sums of
  non-negative numbers in the normal range only, and the transform algebra is not part of
  this development.
\<close>

end
